theory Spec2Isabelle
  imports Complex_Main
begin

unbundle bit_operations_syntax

section \<open>JavaScript numbers and their 32-bit operators\<close>

text \<open>
  A number is a double: an integer, another finite value (a fraction, given as the
  rational it is), \<^verbatim>\<open>NaN\<close> or an infinity. The class \<^verbatim>\<open>binary\<close> of \<^verbatim>\<open>src/index.ts\<close>
  meets the numbers that are not integers only in what a caller hands over; what it
  computes itself (masks, the values read from the bits, their sums and differences)
  are integers far below \<open>2^53\<close>, on which \<^verbatim>\<open>+\<close>, \<^verbatim>\<open>-\<close> and the comparisons are
  exact, and these are of type \<open>int\<close>.
\<close>

datatype number = Integer int | Fraction rat | NaN | PlusInfinity | MinusInfinity

text \<open>\<^verbatim>\<open>value < 0\<close>; every comparison with \<^verbatim>\<open>NaN\<close> is false.\<close>

fun lessZero :: "number \<Rightarrow> bool" where
  "lessZero (Integer n) = (n < 0)"
| "lessZero (Fraction q) = (q < 0)"
| "lessZero NaN = False"
| "lessZero PlusInfinity = False"
| "lessZero MinusInfinity = True"

text \<open>
  \<^verbatim>\<open>ToInt32\<close>, which every bitwise operator applies to its operands: \<^verbatim>\<open>NaN\<close> and the
  infinities become 0, a finite number is cut towards zero to an integer and wrapped
  into the signed 32-bit range.
\<close>

definition int32 :: "int \<Rightarrow> int" where
  "int32 x = signed_take_bit 31 x"

definition truncate :: "rat \<Rightarrow> int" where
  "truncate q = (if q < 0 then - \<lfloor>- q\<rfloor> else \<lfloor>q\<rfloor>)"

fun toInt32 :: "number \<Rightarrow> int" where
  "toInt32 (Integer n) = int32 n"
| "toInt32 (Fraction q) = int32 (truncate q)"
| "toInt32 NaN = 0"
| "toInt32 PlusInfinity = 0"
| "toInt32 MinusInfinity = 0"

text \<open>
  The operators on integer operands. The result is a signed 32-bit integer; a shift
  count is taken modulo 32.
\<close>

definition js_and :: "int \<Rightarrow> int \<Rightarrow> int" where
  "js_and a b = int32 a AND int32 b"

definition js_or :: "int \<Rightarrow> int \<Rightarrow> int" where
  "js_or a b = int32 a OR int32 b"

definition js_xor :: "int \<Rightarrow> int \<Rightarrow> int" where
  "js_xor a b = int32 a XOR int32 b"

definition js_not :: "int \<Rightarrow> int" where
  "js_not a = NOT (int32 a)"

definition js_shl :: "int \<Rightarrow> int \<Rightarrow> int" where
  "js_shl a b = int32 (push_bit (nat (b mod 32)) (int32 a))"

definition js_shr :: "int \<Rightarrow> int \<Rightarrow> int" where
  "js_shr a b = drop_bit (nat (b mod 32)) (int32 a)"

section \<open>The class binary\<close>

text \<open>
  An instance has the fields of the class; the indexed properties \<^verbatim>\<open>this[0]\<close> ..
  \<^verbatim>\<open>this[length - 1]\<close> are the list \<open>bits\<close>, index 0 the most significant bit. The
  constructor creates exactly the indices below \<open>length\<close>, and for a size of at least 1
  no method writes another one, so \<open>length (bits b) = length_b b\<close> for every instance
  (lemma \<open>new_binary_width\<close>). The size is a natural number: the class is not meant
  for a negative or fractional size.
\<close>

record binary =
  length_b :: nat
  mask_b :: int
  decimalMask :: int
  signedMask :: int
  useSigned :: bool
  bits :: "bool list"

text \<open>Reading \<^verbatim>\<open>this[index]\<close>: a property that does not exist is \<^verbatim>\<open>undefined\<close>, which is falsy.\<close>

definition getBit :: "binary \<Rightarrow> nat \<Rightarrow> bool" where
  "getBit this index = (index < length (bits this) \<and> bits this ! index)"

text \<open>
  The values a caller can hand over as seed or operand. An absent argument is read
  through \<^verbatim>\<open>arguments[1]\<close> and so is \<^verbatim>\<open>undefined\<close>. \<open>SMixed\<close> is a non-empty array
  whose elements are neither all booleans, nor all numbers, nor all strings; \<open>SOther\<close>
  is any value of another type (an object, a function, a symbol).

  The class reads a string through the host's unary plus (\<^verbatim>\<open>+data\<close>), which is not
  code of the class: white space, radix prefixes, exponents and the rounding to a
  double are the host's. So a string comes with the number the host reads from it,
  as an input: the call \<^verbatim>\<open>new binary(8, '0x1F')\<close> has the seed
  \<open>SString ''0x1F'' (Integer 31)\<close>, and a string that is not numeric comes with
  \<open>NaN\<close>. The same holds for each element of an array of strings.
\<close>

datatype seed =
    SNull
  | SUndefined
  | SBinary binary
  | SNumber number
  | SBoolean bool
  | SString string number
  | SBooleans "bool list"
  | SNumbers "number list"
  | SStrings "(string \<times> number) list"
  | SMixed
  | SOther

text \<open>One constructor per \<^verbatim>\<open>throw\<close> of the constructor and of \<^verbatim>\<open>convert\<close>.\<close>

datatype error =
    GivenNull
  | GivenUndefined
  | ConvertNull
  | ConvertUndefined
  | EmptyString
  | NonNumericString
  | EmptyArray
  | ArrayContent
  | Unsupported

subsection \<open>The accessors unsigned, signed and valueOf\<close>

text \<open>
  The loop of \<^verbatim>\<open>unsigned\<close>; the first argument counts the iterations left, so the
  current index is one less.
\<close>

fun unsigned_loop :: "binary \<Rightarrow> nat \<Rightarrow> int \<Rightarrow> int \<Rightarrow> int" where
  "unsigned_loop this 0 m number = number"
| "unsigned_loop this (Suc index) m number =
     unsigned_loop this index (js_shl m 1) (number + (if getBit this index then m else 0))"

definition unsigned :: "binary \<Rightarrow> int" where
  "unsigned this = unsigned_loop this (length_b this) 1 0"

definition signed :: "binary \<Rightarrow> int" where
  "signed this =
     (let number = unsigned this in
      if js_and number (signedMask this) \<noteq> 0
      then - signedMask this + js_and number (decimalMask this)
      else number)"

definition valueOf :: "binary \<Rightarrow> int" where
  "valueOf this = (if useSigned this then signed this else unsigned this)"

subsection \<open>reform and convert\<close>

text \<open>
  \<^verbatim>\<open>value & mask\<close> brings the number \<^verbatim>\<open>value\<close> into 32 bits first; the mask is an
  integer of the loop.
\<close>

fun reform_unsigned_loop :: "number \<Rightarrow> nat \<Rightarrow> int \<Rightarrow> bool list \<Rightarrow> bool list" where
  "reform_unsigned_loop v 0 m bs = bs"
| "reform_unsigned_loop v (Suc index) m bs =
     reform_unsigned_loop v index (js_shl m 1) (bs[index := (js_and (toInt32 v) m \<noteq> 0)])"

fun reform_signed_loop :: "number \<Rightarrow> int \<Rightarrow> nat \<Rightarrow> int \<Rightarrow> bool list \<Rightarrow> bool list" where
  "reform_signed_loop v dm 0 m bs = bs"
| "reform_signed_loop v dm (Suc index) m bs =
     reform_signed_loop v dm index (js_shl m 1)
       (bs[index := (js_and (js_and (toInt32 v) m) dm \<noteq> 0)])"

definition reform :: "binary \<Rightarrow> number \<Rightarrow> binary" where
  "reform this v =
     (if \<not> useSigned this
      then this\<lparr>bits := reform_unsigned_loop v (length_b this) 1 (bits this)\<rparr>
      else
        let bs = reform_signed_loop v (decimalMask this) (length_b this) 1 (bits this)
        in this\<lparr>bits := (if lessZero v then bs[0 := True] else bs)\<rparr>)"

text \<open>
  The three array loops of \<^verbatim>\<open>convert\<close> differ only in how an element becomes a
  number before \<^verbatim>\<open>& mask\<close>: a boolean through \<^verbatim>\<open>? 1 : 0\<close>, a string through the
  host. The list holds the elements as numbers; the sum is an integer.
\<close>

fun convert_loop :: "number list \<Rightarrow> nat \<Rightarrow> int \<Rightarrow> int \<Rightarrow> int" where
  "convert_loop xs 0 m v = v"
| "convert_loop xs (Suc index) m v =
     convert_loop xs index (js_shl m 1) (v + js_and (toInt32 (xs ! index)) m)"

fun convert :: "seed \<Rightarrow> error + number" where
  "convert SNull = Inl ConvertNull"
| "convert SUndefined = Inl ConvertUndefined"
| "convert (SBinary data) = Inr (Integer (valueOf data))"
| "convert (SNumber data) = Inr data"
| "convert (SBoolean data) = Inr (Integer (if data then 1 else 0))"
| "convert (SString data given) =
     (if data = [] then Inl EmptyString
      else if given = NaN then Inl NonNumericString
      else Inr given)"
| "convert (SBooleans data) =
     (if data = [] then Inl EmptyArray
      else Inr (Integer (convert_loop (map (\<lambda>b. Integer (if b then 1 else 0)) data)
                           (length data) 1 0)))"
| "convert (SNumbers data) =
     (if data = [] then Inl EmptyArray
      else Inr (Integer (convert_loop data (length data) 1 0)))"
| "convert (SStrings data) =
     (if data = [] then Inl EmptyArray
      else if list_all (\<lambda>(s, given). given \<noteq> NaN) data
      then Inr (Integer (convert_loop (map snd data) (length data) 1 0))
      else Inl ArrayContent)"
| "convert SMixed = Inl ArrayContent"
| "convert SOther = Inl Unsupported"

subsection \<open>The constructor\<close>

text \<open>
  \<^verbatim>\<open>+('0b' + '1'.repeat(size))\<close>: the literal of \<open>sz\<close> ones is \<open>2^sz - 1\<close>, exact in
  a double up to 53 bits; above that it rounds to \<open>2^sz\<close>. The class uses the mask
  only under \<^verbatim>\<open>>>\<close> and \<^verbatim>\<open>&\<close>, that is through \<^verbatim>\<open>ToInt32\<close>: for \<open>sz = 0\<close> the
  literal is \<^verbatim>\<open>NaN\<close> and from 1024 bits on \<^verbatim>\<open>Infinity\<close>, both of which are 0 there
  like the integers taken here.
\<close>

definition maskOf :: "nat \<Rightarrow> int" where
  "maskOf sz = (if sz \<le> 53 then 2 ^ sz - 1 else 2 ^ sz)"

text \<open>
  The third argument is \<open>Some f\<close> when a boolean was passed and \<open>None\<close> otherwise. A
  \<^verbatim>\<open>throw\<close> abandons the object under construction, so the result is the error alone.
\<close>

definition new_binary :: "nat \<Rightarrow> seed \<Rightarrow> bool option \<Rightarrow> error + binary" where
  "new_binary sz argument flag =
     (if argument = SNull then Inl GivenNull
      else if argument = SUndefined then Inl GivenUndefined
      else
        let m = maskOf sz;
            dm = js_shr m 1;
            this = \<lparr> length_b = sz, mask_b = m, decimalMask = dm, signedMask = js_and m dm,
                     useSigned = (case flag of Some f \<Rightarrow> f | None \<Rightarrow> False),
                     bits = replicate sz False \<rparr>
        in case convert argument of
             Inl e \<Rightarrow> Inl e
           | Inr v \<Rightarrow> Inr (reform this v))"

definition copy :: "binary \<Rightarrow> error + binary" where
  "copy this = new_binary (length_b this) (SBinary this) None"

subsection \<open>Mutating operations\<close>

text \<open>
  A method mutates its receiver in place and returns it, or throws. The model returns
  the receiver as it is when the call ends, and the error if the call ended by a throw.
  The static functions take the receiver as \<open>target\<close> (their \<^verbatim>\<open>instanceof\<close> guard
  holds by typing); the instance methods only forward to them.
\<close>

definition and_b :: "binary \<Rightarrow> seed \<Rightarrow> binary \<times> error option" where
  "and_b target arg =
     (case new_binary (length_b target) arg (Some (useSigned target)) of
        Inl e \<Rightarrow> (target, Some e)
      | Inr v \<Rightarrow> (reform target (Integer (js_and (valueOf target) (valueOf v))), None))"

definition or_b :: "binary \<Rightarrow> seed \<Rightarrow> binary \<times> error option" where
  "or_b target arg =
     (case new_binary (length_b target) arg (Some (useSigned target)) of
        Inl e \<Rightarrow> (target, Some e)
      | Inr v \<Rightarrow> (reform target (Integer (js_or (valueOf target) (valueOf v))), None))"

definition xor_b :: "binary \<Rightarrow> seed \<Rightarrow> binary \<times> error option" where
  "xor_b target arg =
     (case new_binary (length_b target) arg (Some (useSigned target)) of
        Inl e \<Rightarrow> (target, Some e)
      | Inr v \<Rightarrow> (reform target (Integer (js_xor (valueOf target) (valueOf v))), None))"

definition not_b :: "binary \<Rightarrow> binary \<times> error option" where
  "not_b target = (reform target (Integer (js_not (valueOf target))), None)"

definition leftShift :: "binary \<Rightarrow> seed \<Rightarrow> binary \<times> error option" where
  "leftShift target arg =
     (case new_binary (length_b target) arg (Some (useSigned target)) of
        Inl e \<Rightarrow> (target, Some e)
      | Inr v \<Rightarrow> (reform target (Integer (js_shl (valueOf target) (valueOf v))), None))"

definition rightShift :: "binary \<Rightarrow> seed \<Rightarrow> binary \<times> error option" where
  "rightShift target arg =
     (case new_binary (length_b target) arg (Some (useSigned target)) of
        Inl e \<Rightarrow> (target, Some e)
      | Inr v \<Rightarrow> (reform target (Integer (js_shr (valueOf target) (valueOf v))), None))"

definition add :: "binary \<Rightarrow> seed \<Rightarrow> binary \<times> error option" where
  "add target arg =
     (case new_binary (length_b target) arg (Some (useSigned target)) of
        Inl e \<Rightarrow> (target, Some e)
      | Inr v \<Rightarrow> (reform target (Integer (valueOf target + valueOf v)), None))"

definition subtract :: "binary \<Rightarrow> seed \<Rightarrow> binary \<times> error option" where
  "subtract target arg =
     (case new_binary (length_b target) arg (Some (useSigned target)) of
        Inl e \<Rightarrow> (target, Some e)
      | Inr v \<Rightarrow> (reform target (Integer (valueOf target - valueOf v)), None))"

text \<open>\<^verbatim>\<open>fromArray\<close>, like the other \<^verbatim>\<open>from...\<close> methods, is \<^verbatim>\<open>convert\<close> and then \<^verbatim>\<open>reform\<close>.\<close>

definition fromArray :: "binary \<Rightarrow> seed \<Rightarrow> binary \<times> error option" where
  "fromArray this array =
     (case convert array of
        Inl e \<Rightarrow> (this, Some e)
      | Inr v \<Rightarrow> (reform this v, None))"

subsection \<open>Output formats\<close>

function toArray_loop :: "binary \<Rightarrow> nat \<Rightarrow> bool list \<Rightarrow> bool list" where
  "toArray_loop this index array =
     (if index < length_b this
      then toArray_loop this (Suc index) (array @ [getBit this index])
      else array)"
  by pat_completeness auto
termination
  by (relation "measure (\<lambda>(this, index, array). length_b this - index)") auto

declare toArray_loop.simps [simp del]

definition toArray :: "binary \<Rightarrow> bool list" where
  "toArray this = toArray_loop this 0 []"

function toBinaryString_loop :: "binary \<Rightarrow> nat \<Rightarrow> string \<Rightarrow> string" where
  "toBinaryString_loop this index string =
     (if index < length_b this
      then toBinaryString_loop this (Suc index)
             (string @ (if getBit this index then ''1'' else ''0''))
      else string)"
  by pat_completeness auto
termination
  by (relation "measure (\<lambda>(this, index, string). length_b this - index)") auto

declare toBinaryString_loop.simps [simp del]

definition toBinaryString :: "binary \<Rightarrow> bool \<Rightarrow> string" where
  "toBinaryString this prefix = toBinaryString_loop this 0 (if prefix then ''0b'' else '''')"

text \<open>\<^verbatim>\<open>string += number\<close> appends the decimal numeral of the number.\<close>

fun decimal :: "nat \<Rightarrow> string" where
  "decimal n =
     (if n < 10 then [char_of (48 + n)]
      else decimal (n div 10) @ [char_of (48 + n mod 10)])"

declare decimal.simps [simp del]

definition hexCase :: "nat \<Rightarrow> string" where
  "hexCase number =
     (if number = 10 then ''A''
      else if number = 11 then ''B''
      else if number = 12 then ''C''
      else if number = 13 then ''D''
      else if number = 14 then ''E''
      else if number = 15 then ''F''
      else decimal number)"

function chunk_loop :: "string \<Rightarrow> nat \<Rightarrow> nat \<Rightarrow> nat \<Rightarrow> nat" where
  "chunk_loop stringified index end number =
     (if index < end
      then chunk_loop stringified (Suc index) end
             (number + (if index < length stringified \<and> stringified ! index = CHR ''1''
                        then 1 else 0))
      else number)"
  by pat_completeness auto
termination
  by (relation "measure (\<lambda>(stringified, index, end, number). end - index)") auto

declare chunk_loop.simps [simp del]

function hex_loop :: "string \<Rightarrow> nat \<Rightarrow> nat \<Rightarrow> string \<Rightarrow> string" where
  "hex_loop stringified len char string =
     (if char < len
      then
        let start = char * 4;
            end = start + 4;
            number = (if end < length stringified then chunk_loop stringified start end 0 else 0)
        in hex_loop stringified len (Suc char) (string @ hexCase number)
      else string)"
  by pat_completeness auto
termination
  by (relation "measure (\<lambda>(stringified, len, char, string). len - char)") auto

declare hex_loop.simps [simp del]

definition toHexadecimalString :: "binary \<Rightarrow> bool \<Rightarrow> string" where
  "toHexadecimalString this prefix =
     (let stringified = toBinaryString this False;
          len = (length stringified + 3) div 4
      in hex_loop stringified len 0 (if prefix then ''0x'' else ''''))"

section \<open>Notions used to state the properties\<close>

text \<open>Bit \<open>k\<close> of a number as a 32-bit operator sees it.\<close>

definition bit32 :: "int \<Rightarrow> nat \<Rightarrow> bool" where
  "bit32 v k = (k < 32 \<and> bit v k)"

text \<open>
  The eight-bit instance with the given bits and flag; its three masks are the ones
  the constructor derives for size 8 (lemma \<open>byteOf_constructed\<close> below).
\<close>

definition byteOf :: "bool list \<Rightarrow> bool \<Rightarrow> binary" where
  "byteOf bs f =
     \<lparr> length_b = 8, mask_b = 255, decimalMask = 127, signedMask = 127,
       useSigned = f, bits = bs \<rparr>"

text \<open>
  The hexadecimal rendering as the specification words it: the bits are cut into
  chunks of four from the most significant side, and a chunk becomes the digit of its
  number of set bits. \<open>popcountDigits bs n\<close> is the text for the first \<open>n\<close> chunks.
\<close>

definition chunkOf :: "bool list \<Rightarrow> nat \<Rightarrow> bool list" where
  "chunkOf bs c = take 4 (drop (4 * c) bs)"

definition popcount :: "bool list \<Rightarrow> nat" where
  "popcount ch = length (filter (\<lambda>b. b) ch)"

definition popcountDigits :: "bool list \<Rightarrow> nat \<Rightarrow> string" where
  "popcountDigits bs n = concat (map (\<lambda>c. hexCase (popcount (chunkOf bs c))) [0..<n])"

text \<open>The characters of \<^verbatim>\<open>toBinaryString\<close> and the digit \<^verbatim>\<open>toHexadecimalString\<close> appends for chunk \<open>c\<close>.\<close>

definition bitChar :: "binary \<Rightarrow> nat \<Rightarrow> char" where
  "bitChar this j = (if getBit this j then CHR ''1'' else CHR ''0'')"

definition chunkDigit :: "string \<Rightarrow> nat \<Rightarrow> string" where
  "chunkDigit s =
     (\<lambda>c. hexCase (if c * 4 + 4 < length s then chunk_loop s (c * 4) (c * 4 + 4) 0 else 0))"

text \<open>
  The signed decode as the specification words it, on unbounded integers: with
  \<open>mask = 2^w - 1\<close>, \<open>halfMask = mask >> 1\<close> and \<open>signMask = mask & halfMask\<close>, an
  unsigned value \<open>u\<close> decodes to itself when \<open>u & signMask\<close> is 0 and to
  \<open>-signMask + (u & halfMask)\<close> otherwise.
\<close>

definition signedDecode :: "nat \<Rightarrow> int \<Rightarrow> int" where
  "signedDecode w u =
     (let m = 2 ^ w - 1;
          halfMask = drop_bit 1 m;
          signMask = m AND halfMask
      in if u AND signMask = 0 then u else - signMask + (u AND halfMask))"

section \<open>The loops in closed form\<close>

lemma js_shl_pow: "js_shl (int32 (2 ^ k)) 1 = int32 (2 ^ Suc k)"
proof -
  have "js_shl (int32 (2 ^ k)) 1 = signed_take_bit 31 (2 * signed_take_bit 31 (2 ^ k :: int))"
    by (simp add: js_shl_def int32_def push_bit_eq_mult mult.commute)
  also have "\<dots> = signed_take_bit 31 (signed_take_bit 31 2 * signed_take_bit 31 (2 ^ k :: int))"
    by simp
  also have "\<dots> = signed_take_bit 31 (2 * 2 ^ k :: int)"
    by (rule signed_take_bit_mult)
  finally show ?thesis by (simp add: int32_def)
qed

lemma js_and_pow: "(js_and v (int32 (2 ^ k)) \<noteq> 0) = bit32 v k"
proof -
  let ?x = "js_and v (int32 (2 ^ k))"
  have bits: "bit ?x n = (bit v (min 31 n) \<and> min 31 n = k)" for n
    by (auto simp add: js_and_def int32_def bit_and_iff bit_signed_take_bit_iff bit_exp_iff)
  have "(?x \<noteq> 0) = (\<exists>n. bit ?x n)"
    by (simp add: bit_eq_iff)
  also have "\<dots> = (\<exists>n. bit v (min 31 n) \<and> min 31 n = k)"
    by (simp only: bits)
  also have "\<dots> = bit32 v k"
  proof
    assume "\<exists>n. bit v (min 31 n) \<and> min 31 n = k"
    then show "bit32 v k" by (auto simp add: bit32_def min_def split: if_splits)
  next
    assume "bit32 v k"
    then have "k \<le> 31" and "bit v k" by (simp_all add: bit32_def)
    then have "bit v (min 31 k) \<and> min 31 k = k" by (simp add: min_absorb2)
    then show "\<exists>n. bit v (min 31 n) \<and> min 31 n = k" ..
  qed
  finally show ?thesis .
qed

lemma int32_pow_small: "k < 31 \<Longrightarrow> int32 (2 ^ k) = 2 ^ k"
proof -
  assume "k < 31"
  then have "(2::int) ^ k < 2 ^ 31"
    by (rule power_strict_increasing) simp
  moreover have "- (2 ^ 31) \<le> (2::int) ^ k"
    by (rule order_trans [of _ 0]) simp_all
  ultimately show ?thesis
    unfolding int32_def by (intro signed_take_bit_int_eq_self)
qed

lemma unsigned_loop_sum:
  "unsigned_loop this n (int32 (2 ^ k)) acc =
     acc + (\<Sum>j<n. if getBit this (n - 1 - j) then int32 (2 ^ (k + j)) else 0)"
proof (induction n arbitrary: k acc)
  case 0
  show ?case by simp
next
  case (Suc n)
  have "unsigned_loop this (Suc n) (int32 (2 ^ k)) acc =
          unsigned_loop this n (int32 (2 ^ Suc k))
            (acc + (if getBit this n then int32 (2 ^ k) else 0))"
    by (simp add: js_shl_pow del: power_Suc)
  also have "\<dots> = acc + (if getBit this n then int32 (2 ^ k) else 0) +
          (\<Sum>j<n. if getBit this (n - 1 - j) then int32 (2 ^ (Suc k + j)) else 0)"
    by (rule Suc.IH)
  also have "\<dots> =
          acc + (\<Sum>j<Suc n. if getBit this (Suc n - 1 - j) then int32 (2 ^ (k + j)) else 0)"
    unfolding sum.lessThan_Suc_shift by (simp del: power_Suc cong: if_cong)
  finally show ?case .
qed

lemma drop_list_update_same:
  "n < length bs \<Longrightarrow> drop n (bs[n := x]) = x # drop (Suc n) bs"
  by (simp add: upd_conv_take_nth_drop)

lemma reform_unsigned_loop_map:
  "n \<le> length bs \<Longrightarrow>
   reform_unsigned_loop x n (int32 (2 ^ k)) bs =
     map (\<lambda>i. bit32 (toInt32 x) (k + (n - 1 - i))) [0..<n] @ drop n bs"
proof (induction n arbitrary: k bs)
  case 0
  show ?case by simp
next
  case (Suc n)
  from Suc.prems have n: "n < length bs" by simp
  have "reform_unsigned_loop x (Suc n) (int32 (2 ^ k)) bs =
          reform_unsigned_loop x n (int32 (2 ^ Suc k)) (bs[n := bit32 (toInt32 x) k])"
    by (simp add: js_shl_pow js_and_pow del: power_Suc)
  also have "\<dots> =
          map (\<lambda>i. bit32 (toInt32 x) (Suc k + (n - 1 - i))) [0..<n] @ drop n (bs[n := bit32 (toInt32 x) k])"
    using n by (intro Suc.IH) simp
  also have "drop n (bs[n := bit32 (toInt32 x) k]) = bit32 (toInt32 x) k # drop (Suc n) bs"
    using n by (rule drop_list_update_same)
  also have "map (\<lambda>i. bit32 (toInt32 x) (Suc k + (n - 1 - i))) [0..<n] =
          map (\<lambda>i. bit32 (toInt32 x) (k + (Suc n - 1 - i))) [0..<n]"
    by (intro map_cong refl arg_cong [where f = "bit32 (toInt32 x)"]) auto
  finally show ?case by simp
qed

lemma bits_reform_unsigned:
  assumes "\<not> useSigned this" and "length (bits this) = length_b this"
  shows "bits (reform this x) =
           map (\<lambda>i. bit32 (toInt32 x) (length_b this - 1 - i)) [0..<length_b this]"
proof -
  have "reform_unsigned_loop x (length_b this) (int32 (2 ^ 0)) (bits this) =
          map (\<lambda>i. bit32 (toInt32 x) (0 + (length_b this - 1 - i))) [0..<length_b this]
            @ drop (length_b this) (bits this)"
    using assms(2) by (intro reform_unsigned_loop_map) simp
  with assms show ?thesis by (simp add: reform_def int32_def)
qed

text \<open>
  Up to 31 bits, expanding a number without sign and collapsing it again keeps its low
  \<open>length\<close> bits.
\<close>

lemma unsigned_reform:
  assumes "\<not> useSigned this" and "length (bits this) = length_b this"
    and "length_b this \<le> 31"
  shows "unsigned (reform this x) = take_bit (length_b this) (toInt32 x)"
proof -
  let ?w = "length_b this"
  let ?r = "reform this x"
  have len: "length_b ?r = ?w" by (simp add: reform_def Let_def)
  have get: "getBit ?r (?w - Suc j) = bit (toInt32 x) j" if "j < ?w" for j
    using that assms(3)
    by (simp add: getBit_def bits_reform_unsigned [OF assms(1,2)] bit32_def)
  have "unsigned ?r =
          (\<Sum>j<?w. if getBit ?r (?w - 1 - j) then int32 (2 ^ (0 + j)) else 0)"
    unfolding unsigned_def len using unsigned_loop_sum [of ?r ?w 0 0]
    by (simp add: int32_def)
  also have "\<dots> = (\<Sum>j<?w. push_bit j (of_bool (bit (toInt32 x) j)))"
    using assms(3)
    by (intro sum.cong) (auto simp add: get int32_pow_small push_bit_eq_mult)
  also have "\<dots> = take_bit ?w (toInt32 x)"
    by (simp add: take_bit_sum lessThan_atLeast0)
  finally show ?thesis .
qed

subsection \<open>The constructor\<close>

lemma new_binary_masks:
  assumes "new_binary w s flag = Inr b"
  shows "length_b b = w \<and> mask_b b = maskOf w \<and> decimalMask b = js_shr (maskOf w) 1 \<and>
         signedMask b = js_and (maskOf w) (js_shr (maskOf w) 1)"
  using assms
  by (auto simp add: new_binary_def reform_def Let_def split: if_splits sum.splits)

lemma length_reform_unsigned_loop: "length (reform_unsigned_loop v n m bs) = length bs"
  by (induction n arbitrary: m bs) simp_all

lemma length_reform_signed_loop: "length (reform_signed_loop v dm n m bs) = length bs"
  by (induction n arbitrary: m bs) simp_all

text \<open>Whatever the seed, a constructed instance has as many bits as its declared width.\<close>

lemma new_binary_width:
  assumes "new_binary w s flag = Inr b"
  shows "length_b b = w \<and> length (bits b) = w"
  using assms
  by (auto simp add: new_binary_def reform_def Let_def length_reform_unsigned_loop
      length_reform_signed_loop split: if_splits sum.splits)

lemma byteOf_constructed:
  "new_binary 8 (SNumber (Integer 218)) (Some False) =
     Inr (byteOf [True, True, False, True, True, False, True, False] False)"
  "new_binary 8 (SNumber (Integer 169)) (Some False) =
     Inr (byteOf [True, False, True, False, True, False, False, True] False)"
  "new_binary 8 (SNumber (Integer 218)) (Some True) =
     Inr (byteOf [False, True, False, True, True, False, True, False] True)"
  by code_simp+

lemma replicate_update_same: "(replicate w x)[i := x] = replicate w x"
  by (cases "i < w") (simp_all add: list_eq_iff_nth_eq nth_list_update)

lemma js_and_zero: "js_and 0 m = 0"
  by (simp add: js_and_def int32_def)

lemma int32_0: "int32 0 = 0"
  by (simp add: int32_def)

lemma reform_unsigned_loop_zero:
  "reform_unsigned_loop (Integer 0) n m (replicate w False) = replicate w False"
  by (induction n arbitrary: m) (simp_all add: js_and_zero int32_0 replicate_update_same)

lemma reform_signed_loop_zero:
  "reform_signed_loop (Integer 0) dm n m (replicate w False) = replicate w False"
  by (induction n arbitrary: m) (simp_all add: js_and_zero int32_0 replicate_update_same)

lemma getBit_clear: "bits this = replicate w False \<Longrightarrow> \<not> getBit this i"
  by (auto simp add: getBit_def)

lemma unsigned_loop_clear:
  "bits this = replicate w False \<Longrightarrow> unsigned_loop this n m acc = acc"
  by (induction n arbitrary: m acc) (simp_all add: getBit_clear)

lemma new_binary_zero:
  "new_binary w (SNumber (Integer 0)) flag =
     Inr \<lparr> length_b = w, mask_b = maskOf w, decimalMask = js_shr (maskOf w) 1,
           signedMask = js_and (maskOf w) (js_shr (maskOf w) 1),
           useSigned = (case flag of Some f \<Rightarrow> f | None \<Rightarrow> False),
           bits = replicate w False \<rparr>"
  by (simp add: new_binary_def reform_def Let_def
      reform_unsigned_loop_zero reform_signed_loop_zero)

lemma take_bit_int32: "m \<le> 32 \<Longrightarrow> take_bit m (int32 z) = take_bit m z"
  by (simp add: int32_def take_bit_signed_take_bit)

text \<open>
  Below 32 bits the number read back from a fresh unsigned instance is the seed
  itself, for every seed the width can hold.
\<close>

lemma unsigned_of_seed:
  assumes "w \<le> 31" and "0 \<le> v" and "v < 2 ^ w"
  shows "map_sum id unsigned (new_binary w (SNumber (Integer v)) (Some False)) = Inr v"
proof -
  have "take_bit w v = v"
    using assms(2,3) by (simp add: take_bit_int_eq_self)
  with assms(1) show ?thesis
    by (simp add: new_binary_def Let_def unsigned_reform take_bit_int32)
qed

subsection \<open>Operands of an unsigned receiver\<close>

lemma unsigned_as_sum:
  assumes "\<not> useSigned this" and "length (bits this) = length_b this"
  shows "unsigned (reform this x) =
           (\<Sum>j<length_b this. if bit32 (toInt32 x) j then int32 (2 ^ j) else 0)"
proof -
  let ?w = "length_b this"
  let ?r = "reform this x"
  have len: "length_b ?r = ?w" by (simp add: reform_def Let_def)
  have get: "getBit ?r (?w - Suc j) = bit32 (toInt32 x) j" if "j < ?w" for j
    using that by (simp add: getBit_def bits_reform_unsigned [OF assms])
  have "unsigned ?r =
          (\<Sum>j<?w. if getBit ?r (?w - 1 - j) then int32 (2 ^ (0 + j)) else 0)"
    unfolding unsigned_def len using unsigned_loop_sum [of ?r ?w 0 0]
    by (simp add: int32_def)
  also have "\<dots> = (\<Sum>j<?w. if bit32 (toInt32 x) j then int32 (2 ^ j) else 0)"
    by (intro sum.cong) (auto simp add: get)
  finally show ?thesis .
qed

text \<open>
  At any width, collapsing an unsigned instance gives back the bits that were
  expanded: the low \<open>length\<close> bits of the number, and at most 32 of them.
\<close>

lemma unsigned_reform_low_bits:
  assumes "\<not> useSigned this" and "length (bits this) = length_b this"
  shows "take_bit (min (length_b this) 32) (unsigned (reform this x)) =
           take_bit (min (length_b this) 32) (toInt32 x)"
proof -
  let ?w = "length_b this"
  let ?m = "min ?w 32"
  let ?z = "toInt32 x"
  let ?f = "\<lambda>j. if bit32 ?z j then int32 (2 ^ j) else 0"
  let ?g = "\<lambda>j. push_bit j (of_bool (bit ?z j)) :: int"
  have "(\<Sum>j<?w. ?f j) = (\<Sum>j<?m. ?f j)"
    by (rule sum.mono_neutral_right) (auto simp add: bit32_def min_def)
  moreover have "(\<Sum>j<?m. ?f j) mod 2 ^ ?m = (\<Sum>j<?m. ?g j) mod 2 ^ ?m"
  proof -
    have each: "?f j mod 2 ^ ?m = ?g j mod 2 ^ ?m" if "j < ?m" for j
    proof (cases "bit ?z j")
      case True
      have "take_bit ?m (int32 (2 ^ j)) = take_bit ?m (2 ^ j)"
        by (rule take_bit_int32) simp
      with True that show ?thesis
        by (simp add: bit32_def take_bit_eq_mod push_bit_eq_mult)
    next
      case False
      then show ?thesis by (simp add: bit32_def)
    qed
    have "(\<Sum>j<?m. ?f j) mod 2 ^ ?m = (\<Sum>j<?m. ?f j mod 2 ^ ?m) mod 2 ^ ?m"
      by (simp add: mod_sum_eq)
    also have "(\<Sum>j<?m. ?f j mod 2 ^ ?m) = (\<Sum>j<?m. ?g j mod 2 ^ ?m)"
      by (rule sum.cong) (simp_all add: each)
    also have "\<dots> mod 2 ^ ?m = (\<Sum>j<?m. ?g j) mod 2 ^ ?m"
      by (simp add: mod_sum_eq)
    finally show ?thesis .
  qed
  moreover have "(\<Sum>j<?m. ?g j) = take_bit ?m ?z"
    by (simp add: take_bit_sum lessThan_atLeast0)
  ultimately show ?thesis
    by (simp add: unsigned_as_sum [OF assms] take_bit_eq_mod)
qed

lemma reform_unsigned_cong:
  assumes "\<not> useSigned this" and "length (bits this) = length_b this"
    and "take_bit (min (length_b this) 32) (toInt32 x) =
         take_bit (min (length_b this) 32) (toInt32 y)"
  shows "reform this x = reform this y"
proof -
  let ?m = "min (length_b this) 32"
  have "bit32 (toInt32 x) j = bit32 (toInt32 y) j" if "j < length_b this" for j
  proof (cases "j < 32")
    case True
    have "bit (take_bit ?m (toInt32 x)) j = bit (take_bit ?m (toInt32 y)) j"
      by (simp only: assms(3))
    with that True show ?thesis by (simp add: bit32_def bit_take_bit_iff)
  next
    case False
    then show ?thesis by (simp add: bit32_def)
  qed
  then have "bits (reform this x) = bits (reform this y)"
    unfolding bits_reform_unsigned [OF assms(1,2)] by (intro map_cong refl) simp
  moreover have "reform this x = this\<lparr>bits := bits (reform this x)\<rparr>"
    "reform this y = this\<lparr>bits := bits (reform this y)\<rparr>"
    using assms(1) by (simp_all add: reform_def)
  ultimately show ?thesis by metis
qed

lemma new_binary_convert:
  assumes "convert s = Inr x"
  shows "new_binary w s flag =
     Inr (reform \<lparr> length_b = w, mask_b = maskOf w, decimalMask = js_shr (maskOf w) 1,
           signedMask = js_and (maskOf w) (js_shr (maskOf w) 1),
           useSigned = (case flag of Some f \<Rightarrow> f | None \<Rightarrow> False),
           bits = replicate w False \<rparr> x)"
proof -
  from assms have "s \<noteq> SNull" and "s \<noteq> SUndefined" by auto
  with assms show ?thesis by (simp add: new_binary_def Let_def)
qed

text \<open>The temporary operand of an unsigned receiver holds the low bits of the operand.\<close>

lemma operand_unsigned:
  assumes "convert s = Inr x"
  shows "\<exists>tmp. new_binary w s (Some False) = Inr tmp \<and>
           take_bit (min w 32) (valueOf tmp) = take_bit (min w 32) (toInt32 x)"
proof -
  let ?fresh = "\<lparr> length_b = w, mask_b = maskOf w, decimalMask = js_shr (maskOf w) 1,
           signedMask = js_and (maskOf w) (js_shr (maskOf w) 1),
           useSigned = False, bits = replicate w False \<rparr>"
  have "take_bit (min (length_b ?fresh) 32) (unsigned (reform ?fresh x)) =
          take_bit (min (length_b ?fresh) 32) (toInt32 x)"
    by (intro unsigned_reform_low_bits) simp_all
  moreover have "\<not> useSigned (reform ?fresh x)"
    by (simp add: reform_def)
  ultimately have "take_bit (min w 32) (valueOf (reform ?fresh x)) = take_bit (min w 32) (toInt32 x)"
    by (simp add: valueOf_def)
  moreover have "new_binary w s (Some False) = Inr (reform ?fresh x)"
    using new_binary_convert [OF assms, of w "Some False"] by simp
  ultimately show ?thesis by blast
qed

lemma take_bit_add_right:
  "take_bit m u = take_bit m z \<Longrightarrow> take_bit m (a + u) = take_bit m (a + z)" for a u z :: int
  by (metis take_bit_add)

lemma take_bit_diff_right:
  "take_bit m u = take_bit m z \<Longrightarrow> take_bit m (a - u) = take_bit m (a - z)" for a u z :: int
  by (metis take_bit_diff)

text \<open>
  On an unsigned receiver of any width, an operand that converts to a number enters
  the stored sum or difference with the 32-bit integer of that number.
\<close>

lemma add_unsigned:
  assumes "\<not> useSigned t" and "length (bits t) = length_b t" and "convert s = Inr x"
  shows "add t s = (reform t (Integer (valueOf t + toInt32 x)), None)"
    and "subtract t s = (reform t (Integer (valueOf t - toInt32 x)), None)"
proof -
  let ?m = "min (length_b t) 32"
  from operand_unsigned [OF assms(3)] assms(1) obtain tmp
    where tmp: "new_binary (length_b t) s (Some (useSigned t)) = Inr tmp"
      and low: "take_bit ?m (valueOf tmp) = take_bit ?m (toInt32 x)"
    by auto
  have "take_bit ?m (int32 (valueOf t + valueOf tmp)) = take_bit ?m (int32 (valueOf t + toInt32 x))"
    using take_bit_add_right [OF low] by (simp add: take_bit_int32)
  then have "reform t (Integer (valueOf t + valueOf tmp)) = reform t (Integer (valueOf t + toInt32 x))"
    using assms(1,2) by (intro reform_unsigned_cong) simp_all
  with tmp show "add t s = (reform t (Integer (valueOf t + toInt32 x)), None)"
    by (simp add: add_def)
  have "take_bit ?m (int32 (valueOf t - valueOf tmp)) = take_bit ?m (int32 (valueOf t - toInt32 x))"
    using take_bit_diff_right [OF low] by (simp add: take_bit_int32)
  then have "reform t (Integer (valueOf t - valueOf tmp)) = reform t (Integer (valueOf t - toInt32 x))"
    using assms(1,2) by (intro reform_unsigned_cong) simp_all
  with tmp show "subtract t s = (reform t (Integer (valueOf t - toInt32 x)), None)"
    by (simp add: subtract_def)
qed

lemma add_unsigned_integer:
  assumes "\<not> useSigned t" and "length (bits t) = length_b t" and "convert s = Inr (Integer n)"
  shows "add t s = (reform t (Integer (valueOf t + n)), None)"
    and "subtract t s = (reform t (Integer (valueOf t - n)), None)"
proof -
  let ?m = "min (length_b t) 32"
  have low: "take_bit ?m (int32 n) = take_bit ?m n"
    by (rule take_bit_int32) simp
  have "take_bit ?m (int32 (valueOf t + int32 n)) = take_bit ?m (int32 (valueOf t + n))"
    using take_bit_add_right [OF low] by (simp add: take_bit_int32)
  then have "reform t (Integer (valueOf t + int32 n)) = reform t (Integer (valueOf t + n))"
    using assms(1,2) by (intro reform_unsigned_cong) simp_all
  with add_unsigned(1) [OF assms] show "add t s = (reform t (Integer (valueOf t + n)), None)"
    by simp
  have "take_bit ?m (int32 (valueOf t - int32 n)) = take_bit ?m (int32 (valueOf t - n))"
    using take_bit_diff_right [OF low] by (simp add: take_bit_int32)
  then have "reform t (Integer (valueOf t - int32 n)) = reform t (Integer (valueOf t - n))"
    using assms(1,2) by (intro reform_unsigned_cong) simp_all
  with add_unsigned(2) [OF assms] show "subtract t s = (reform t (Integer (valueOf t - n)), None)"
    by simp
qed

subsection \<open>The signed decode below 32 bits\<close>

lemma int32_small: "0 \<le> s \<Longrightarrow> s < 2 ^ 31 \<Longrightarrow> int32 s = s"
  unfolding int32_def by (rule signed_take_bit_int_eq_self) simp_all

lemma js_and_small:
  assumes "0 \<le> s" and "s < 2 ^ 31"
  shows "js_and u s = u AND s"
proof -
  have s: "take_bit 31 s = s"
    using assms by (simp add: take_bit_int_eq_self)
  have high: "\<not> bit s n" if "31 \<le> n" for n
  proof -
    have "bit s n = bit (take_bit 31 s) n" by (simp only: s)
    with that show ?thesis by (simp add: bit_take_bit_iff)
  qed
  have "int32 u AND s = u AND s"
  proof (rule bit_eqI)
    fix n
    show "bit (int32 u AND s) n = bit (u AND s) n"
    proof (cases "31 \<le> n")
      case True
      then show ?thesis by (simp add: bit_and_iff high)
    next
      case False
      then show ?thesis
        by (simp add: bit_and_iff int32_def bit_signed_take_bit_iff min_def)
    qed
  qed
  with assms show ?thesis
    by (simp add: js_and_def int32_small)
qed

lemma low_masks:
  assumes "1 \<le> w" and "w \<le> 31"
  shows "js_shr (2 ^ w - 1) 1 = drop_bit 1 (2 ^ w - 1)"
    and "0 \<le> drop_bit 1 (2 ^ w - 1 :: int)" and "drop_bit 1 (2 ^ w - 1 :: int) < 2 ^ 31"
proof -
  have "(2::int) ^ w \<le> 2 ^ 31"
    using assms(2) by (intro power_increasing) simp_all
  then have m: "0 \<le> (2 ^ w - 1 :: int)" "(2 ^ w - 1 :: int) < 2 ^ 31"
    by simp_all
  then show "js_shr (2 ^ w - 1) 1 = drop_bit 1 (2 ^ w - 1)"
    by (simp add: js_shr_def int32_small)
  from m show "0 \<le> drop_bit 1 (2 ^ w - 1 :: int)"
    by simp
  have "x div 2 \<le> x" if "0 \<le> x" for x :: int
    using that by presburger
  from this [OF m(1)] have "drop_bit 1 (2 ^ w - 1 :: int) \<le> 2 ^ w - 1"
    by (simp add: drop_bit_eq_div)
  with m(2) show "drop_bit 1 (2 ^ w - 1 :: int) < 2 ^ 31"
    by linarith
qed

text \<open>
  Up to 31 bits the masks of the constructor are the ones of the specification, and
  the accessor \<^verbatim>\<open>signed\<close> decodes as specified, in every state of the instance.
\<close>

lemma signed_decode_below_32:
  assumes "new_binary w s flag = Inr b0" and "1 \<le> w" and "w \<le> 31"
    and "b = b0\<lparr>useSigned := f, bits := bs\<rparr>"
  shows "signed b = signedDecode w (unsigned b)"
proof -
  define m :: int where "m = 2 ^ w - 1"
  define h where "h = drop_bit 1 m"
  define g where "g = m AND h"
  define u where "u = unsigned b"
  from assms(3) have "maskOf w = m" by (simp add: maskOf_def m_def)
  with new_binary_masks [OF assms(1)] assms(4)
  have code: "decimalMask b = js_shr m 1" "signedMask b = js_and m (js_shr m 1)"
    by simp_all
  have h: "js_shr m 1 = h" "0 \<le> h" "h < 2 ^ 31"
    using low_masks [OF assms(2,3)] by (simp_all only: m_def h_def)
  have g: "0 \<le> g" "g < 2 ^ 31"
  proof -
    show "0 \<le> g" using h(2) by (simp add: g_def)
    have "g \<le> h" unfolding g_def using h(2) by (rule AND_upper2)
    with h(3) show "g < 2 ^ 31" by linarith
  qed
  have dm: "decimalMask b = h"
    by (simp only: code h(1))
  have sm: "signedMask b = g"
    by (simp only: code h(1) js_and_small [OF h(2,3)] g_def)
  have "signed b = (if js_and u g \<noteq> 0 then - g + js_and u h else u)"
    by (simp only: signed_def Let_def dm sm u_def)
  also have "\<dots> = (if u AND g = 0 then u else - g + (u AND h))"
    by (simp add: js_and_small [OF h(2,3)] js_and_small [OF g])
  also have "\<dots> = signedDecode w u"
    by (simp only: signedDecode_def Let_def m_def h_def g_def)
  finally show ?thesis by (simp only: u_def)
qed

lemma signed_of_byte_218:
  "map_sum id unsigned (new_binary 8 (SNumber (Integer 218)) (Some False)) = Inr 218
   \<and> map_sum id signed (new_binary 8 (SNumber (Integer 218)) (Some False)) = Inr (- 37)
   \<and> signedDecode 8 218 = - 37"
  by code_simp

subsection \<open>The output loops\<close>

lemma toBinaryString_loop_map:
  "toBinaryString_loop this index string =
     string @ map (bitChar this) [index..<length_b this]"
proof (induction this index string rule: toBinaryString_loop.induct)
  case (1 this index string)
  show ?case
  proof (cases "index < length_b this")
    case True
    with "1" show ?thesis
      by (subst toBinaryString_loop.simps) (simp add: upt_conv_Cons bitChar_def)
  next
    case False
    then show ?thesis
      by (subst toBinaryString_loop.simps) simp
  qed
qed

lemma toBinaryString_map:
  "toBinaryString this False = map (bitChar this) [0..<length_b this]"
  by (simp add: toBinaryString_def toBinaryString_loop_map)

lemma chunk_loop_count:
  "chunk_loop s index end number =
     number + length (filter (\<lambda>j. j < length s \<and> s ! j = CHR ''1'') [index..<end])"
proof (induction s index "end" number rule: chunk_loop.induct)
  case (1 s index "end" number)
  show ?case
  proof (cases "index < end")
    case True
    with "1" show ?thesis
      by (subst chunk_loop.simps) (simp add: upt_conv_Cons)
  next
    case False
    then show ?thesis
      by (subst chunk_loop.simps) simp
  qed
qed

lemma hex_loop_concat:
  "hex_loop s len c string = string @ concat (map (chunkDigit s) [c..<len])"
proof (induction s len c string rule: hex_loop.induct)
  case (1 s len c string)
  show ?case
  proof (cases "c < len")
    case True
    with "1" show ?thesis
      by (subst hex_loop.simps) (simp add: upt_conv_Cons chunkDigit_def Let_def)
  next
    case False
    then show ?thesis
      by (subst hex_loop.simps) simp
  qed
qed

lemma map_nth_take_drop:
  "k + n \<le> length xs \<Longrightarrow> map ((!) xs) [k..<k + n] = take n (drop k xs)"
  by (auto simp add: list_eq_iff_nth_eq)

lemma chunk_popcount:
  assumes "length (bits this) = length_b this" and "c * 4 + 4 \<le> length_b this"
  shows "chunk_loop (toBinaryString this False) (c * 4) (c * 4 + 4) 0
           = popcount (chunkOf (bits this) c)"
proof -
  let ?s = "toBinaryString this False"
  let ?bs = "bits this"
  have "chunk_loop ?s (c * 4) (c * 4 + 4) 0
          = length (filter (\<lambda>j. j < length ?s \<and> ?s ! j = CHR ''1'') [c * 4..<c * 4 + 4])"
    by (simp add: chunk_loop_count)
  also have "filter (\<lambda>j. j < length ?s \<and> ?s ! j = CHR ''1'') [c * 4..<c * 4 + 4]
          = filter (\<lambda>j. ?bs ! j) [c * 4..<c * 4 + 4]"
    using assms by (intro filter_cong refl) (auto simp add: toBinaryString_map bitChar_def getBit_def)
  also have "length \<dots> = length (filter (\<lambda>b. b) (map (\<lambda>j. ?bs ! j) [c * 4..<c * 4 + 4]))"
    by (simp add: filter_map comp_def)
  also have "map (\<lambda>j. ?bs ! j) [c * 4..<c * 4 + 4] = chunkOf ?bs c"
    using assms map_nth_take_drop [of "c * 4" 4 ?bs] by (simp add: chunkOf_def mult.commute)
  finally show ?thesis by (simp add: popcount_def)
qed

lemma hexCase_0: "hexCase 0 = ''0''"
  by code_simp

lemma toHexadecimalString_chunks:
  "toHexadecimalString this prefix =
     (if prefix then ''0x'' else '''')
       @ concat (map (chunkDigit (toBinaryString this False)) [0..<(length_b this + 3) div 4])"
  by (simp add: toHexadecimalString_def Let_def hex_loop_concat toBinaryString_map)

lemma chunkDigit_inner:
  assumes "length (bits this) = length_b this" and "c < (length_b this + 3) div 4 - 1"
  shows "chunkDigit (toBinaryString this False) c = hexCase (popcount (chunkOf (bits this) c))"
proof -
  from assms(2) have lt: "c * 4 + 4 < length_b this" by linarith
  then have "c * 4 + 4 \<le> length_b this" by simp
  from chunk_popcount [OF assms(1) this] lt show ?thesis
    by (simp add: chunkDigit_def toBinaryString_map)
qed

lemma chunkDigit_last:
  assumes "c = (length_b this + 3) div 4 - 1"
  shows "chunkDigit (toBinaryString this False) c = ''0''"
proof -
  from assms have "\<not> c * 4 + 4 < length_b this" by linarith
  then show ?thesis
    by (simp add: chunkDigit_def toBinaryString_map hexCase_0)
qed

lemma toHexadecimalString_rendering:
  assumes "length (bits this) = length_b this"
  shows "toHexadecimalString this prefix =
       (if prefix then ''0x'' else '''')
         @ popcountDigits (bits this) ((length_b this + 3) div 4 - 1)
         @ (if length_b this = 0 then '''' else ''0'')"
proof -
  let ?n = "(length_b this + 3) div 4"
  let ?s = "toBinaryString this False"
  let ?last = "concat (map (chunkDigit ?s) [?n - 1..<?n])"
  have split: "[0..<?n] = [0..<?n - 1] @ [?n - 1..<?n]"
    using upt_add_eq_append [of 0 "?n - 1" "?n - (?n - 1)"] by simp
  have inner: "map (chunkDigit ?s) [0..<?n - 1] =
      map (\<lambda>c. hexCase (popcount (chunkOf (bits this) c))) [0..<?n - 1]"
    using assms by (intro map_cong refl chunkDigit_inner) simp_all
  have "?last = (if length_b this = 0 then '''' else ''0'')"
  proof (cases "length_b this = 0")
    case True
    then show ?thesis by simp
  next
    case False
    then have "?n \<noteq> 0" by linarith
    then have "[?n - 1..<?n] = [?n - 1]"
      by (simp add: upt_conv_Cons)
    with False show ?thesis by (simp add: chunkDigit_last)
  qed
  moreover have "toHexadecimalString this prefix =
       (if prefix then ''0x'' else '''') @ popcountDigits (bits this) (?n - 1) @ ?last"
    unfolding toHexadecimalString_chunks popcountDigits_def inner [symmetric]
    by (subst split) simp
  ultimately show ?thesis by simp
qed

section \<open>The properties\<close>

text \<open>
  C1: an unsigned instance of width \<open>w\<close> built from a seed \<open>v\<close> with \<open>0 \<le> v \<le> 2^w - 1\<close>
  reads back as \<open>v\<close>. This holds up to 31 bits (\<open>unsigned_of_seed\<close>). At width 32 the
  mask of the loop in \<^verbatim>\<open>unsigned\<close> reaches \<^verbatim>\<open>1 << 31\<close>, which is negative, and
  the seed \<open>2^31\<close> reads back as \<open>- 2^31\<close>.
\<close>

theorem unsigned_of_dword_is_negative:
  "map_sum id unsigned (new_binary 32 (SNumber (Integer 2147483648)) (Some False))
     = Inr (- 2147483648)"
  by code_simp

text \<open>
  C2: for a width \<open>w\<close> from 1 to 32 the signed decode of an instance whose unsigned
  value is \<open>u\<close> is \<open>signedDecode w u\<close>, the formula over the masks \<open>2^w - 1\<close>,
  \<open>mask >> 1\<close> and \<open>mask & halfMask\<close>. This holds up to 31 bits
  (\<open>signed_decode_below_32\<close>), and the byte 218 decodes to -37 (\<open>signed_of_byte_218\<close>).
  At width 32 the constructor computes \<^verbatim>\<open>this.mask >> 1\<close> in 32 bits, where the mask
  \<open>2^32 - 1\<close> is \<open>-1\<close>: both derived masks are \<open>-1\<close> instead of \<open>2^31 - 1\<close>, and the
  instance holding 5 decodes to 6, where the formula gives \<open>-2147483642\<close>.
\<close>

theorem signed_of_dword_misses_formula:
  "map_sum id unsigned (new_binary 32 (SNumber (Integer 5)) (Some False)) = Inr 5
   \<and> map_sum id signed (new_binary 32 (SNumber (Integer 5)) (Some False)) = Inr 6
   \<and> signedDecode 32 5 = - 2147483642
   \<and> map_sum id decimalMask (new_binary 32 (SNumber (Integer 5)) (Some False)) = Inr (- 1)
   \<and> map_sum id signedMask (new_binary 32 (SNumber (Integer 5)) (Some False)) = Inr (- 1)"
  by code_simp

text \<open>
  C3: an eight-bit unsigned instance built from a sequence of ten booleans should hold
  the last eight of them, and one built from four booleans those four below four zero
  bits. \<^verbatim>\<open>convert\<close> adds \<^verbatim>\<open>(data[index] ? 1 : 0) & mask\<close>, which is 0 for every mask
  above 1, so only the last element of the sequence reaches the number: ten times
  \<^verbatim>\<open>true\<close> gives the bits 00000001, and \<^verbatim>\<open>[true, true, true, false]\<close> gives 00000000.
  The width is kept.
\<close>

theorem boolean_sequence_keeps_last_element_only:
  "map_sum id bits
     (new_binary 8
        (SBooleans [True, True, True, True, True, True, True, True, True, True]) (Some False))
     = Inr [False, False, False, False, False, False, False, True]
   \<and> map_sum id bits (new_binary 8 (SBooleans [True, True, True, False]) (Some False))
     = Inr [False, False, False, False, False, False, False, False]"
  by code_simp

text \<open>
  C4: on unsigned eight-bit instances \<^verbatim>\<open>add\<close> and \<^verbatim>\<open>subtract\<close> never throw for an
  operand that converts to a number; the receiver is left holding the sum or
  difference of its value and the operand's 32-bit integer, cut to eight bits, that is
  modulo 256. When the operand's number is an integer \<open>n\<close>, whatever its size, this is
  the exact sum or difference with \<open>n\<close> modulo 256. \<^verbatim>\<open>0xA9 + 0xDA\<close> gives 131 and
  \<^verbatim>\<open>0xA9 - 0xDA\<close> gives 207.
\<close>

theorem add_subtract_wrap_modulo_256:
  assumes "length_b a = 8" and "length (bits a) = 8" and "\<not> useSigned a"
    and "convert s = Inr x"
  shows "snd (add a s) = None \<and> snd (subtract a s) = None \<and>
         fst (add a s) = reform a (Integer (unsigned a + toInt32 x)) \<and>
         unsigned (fst (add a s)) = (unsigned a + toInt32 x) mod 256 \<and>
         fst (subtract a s) = reform a (Integer (unsigned a - toInt32 x)) \<and>
         unsigned (fst (subtract a s)) = (unsigned a - toInt32 x) mod 256 \<and>
         (x = Integer n \<longrightarrow>
            fst (add a s) = reform a (Integer (unsigned a + n)) \<and>
            unsigned (fst (add a s)) = (unsigned a + n) mod 256 \<and>
            fst (subtract a s) = reform a (Integer (unsigned a - n)) \<and>
            unsigned (fst (subtract a s)) = (unsigned a - n) mod 256) \<and>
         unsigned (fst (add (byteOf [True, False, True, False, True, False, False, True] False)
           (SBinary (byteOf [True, True, False, True, True, False, True, False] False)))) = 131 \<and>
         unsigned (fst (subtract (byteOf [True, False, True, False, True, False, False, True] False)
           (SBinary (byteOf [True, True, False, True, True, False, True, False] False)))) = 207"
proof -
  have a: "length (bits a) = length_b a" "length_b a \<le> 31"
    using assms(1,2) by simp_all
  have v: "valueOf a = unsigned a"
    using assms(3) by (simp add: valueOf_def)
  have sum: "add a s = (reform a (Integer (unsigned a + toInt32 x)), None)"
    using add_unsigned(1) [OF assms(3) a(1) assms(4)] v by simp
  have diff: "subtract a s = (reform a (Integer (unsigned a - toInt32 x)), None)"
    using add_unsigned(2) [OF assms(3) a(1) assms(4)] v by simp
  have collapse: "unsigned (reform a (Integer z)) = z mod 256" for z
  proof -
    have "take_bit 8 (int32 z) = take_bit 8 z"
      by (rule take_bit_int32) simp
    with unsigned_reform [OF assms(3) a, of "Integer z"] assms(1) show ?thesis
      by (simp add: take_bit_eq_mod)
  qed
  have whole: "fst (add a s) = reform a (Integer (unsigned a + n)) \<and>
            unsigned (fst (add a s)) = (unsigned a + n) mod 256 \<and>
            fst (subtract a s) = reform a (Integer (unsigned a - n)) \<and>
            unsigned (fst (subtract a s)) = (unsigned a - n) mod 256" if "x = Integer n"
  proof -
    from that assms(4) have c: "convert s = Inr (Integer n)" by simp
    have "add a s = (reform a (Integer (unsigned a + n)), None)"
      using add_unsigned_integer(1) [OF assms(3) a(1) c] v by simp
    moreover have "subtract a s = (reform a (Integer (unsigned a - n)), None)"
      using add_unsigned_integer(2) [OF assms(3) a(1) c] v by simp
    ultimately show ?thesis by (simp only: fst_conv collapse simp_thms)
  qed
  have ex1: "unsigned (fst (add (byteOf [True, False, True, False, True, False, False, True] False)
           (SBinary (byteOf [True, True, False, True, True, False, True, False] False)))) = 131"
    by code_simp
  have ex2: "unsigned (fst (subtract (byteOf [True, False, True, False, True, False, False, True] False)
           (SBinary (byteOf [True, True, False, True, True, False, True, False] False)))) = 207"
    by code_simp
  have "snd (add a s) = None \<and> snd (subtract a s) = None \<and>
         fst (add a s) = reform a (Integer (unsigned a + toInt32 x)) \<and>
         unsigned (fst (add a s)) = (unsigned a + toInt32 x) mod 256 \<and>
         fst (subtract a s) = reform a (Integer (unsigned a - toInt32 x)) \<and>
         unsigned (fst (subtract a s)) = (unsigned a - toInt32 x) mod 256"
    unfolding sum diff by (simp only: fst_conv snd_conv collapse simp_thms)
  with whole ex1 ex2 show ?thesis by blast
qed

theorem add_subtract_wrap_modulo_256_witness:
  "convert (SBinary (byteOf [True, True, False, True, True, False, True, False] False))
     = Inr (Integer 218)
   \<and> unsigned (byteOf [True, False, True, False, True, False, False, True] False) = 169
   \<and> snd (add (byteOf [True, False, True, False, True, False, False, True] False)
        (SBinary (byteOf [True, True, False, True, True, False, True, False] False))) = None
   \<and> unsigned (fst (add (byteOf [True, False, True, False, True, False, False, True] False)
        (SBinary (byteOf [True, True, False, True, True, False, True, False] False))))
       = (169 + 218) mod 256
   \<and> unsigned (fst (subtract (byteOf [True, False, True, False, True, False, False, True] False)
        (SBinary (byteOf [True, True, False, True, True, False, True, False] False))))
       = (169 - 218) mod 256"
proof -
  let ?a = "byteOf [True, False, True, False, True, False, False, True] False"
  let ?b = "byteOf [True, True, False, True, True, False, True, False] False"
  have h: "length_b ?a = 8" "length (bits ?a) = 8" "\<not> useSigned ?a"
    by (simp_all add: byteOf_def)
  have c: "convert (SBinary ?b) = Inr (Integer 218)"
    by code_simp
  have u: "unsigned ?a = 169"
    by code_simp
  from add_subtract_wrap_modulo_256 [OF h c, of 218, unfolded u] c u show ?thesis
    by blast
qed

text \<open>
  C5: \<^verbatim>\<open>fromArray\<close> applied to the result of \<^verbatim>\<open>toArray\<close> should give back the bits.
  For the unsigned byte 218 \<^verbatim>\<open>toArray\<close> is 11011010, and \<^verbatim>\<open>fromArray\<close> of it
  leaves 00000000, since \<^verbatim>\<open>convert\<close> reads the last element only.
\<close>

theorem fromArray_toArray_loses_bits:
  "toArray (byteOf [True, True, False, True, True, False, True, False] False)
     = [True, True, False, True, True, False, True, False]
   \<and> fromArray (byteOf [True, True, False, True, True, False, True, False] False)
       (SBooleans (toArray (byteOf [True, True, False, True, True, False, True, False] False)))
     = (byteOf [False, False, False, False, False, False, False, False] False, None)"
  by code_simp

text \<open>
  C6: \<^verbatim>\<open>copy\<close> should give an instance with the width, the bits and the flag of
  the original. It calls the constructor without the third argument, so the copy is
  always unsigned, and it receives the signed value of a signed original: the signed
  byte built from 218 has the bits 01011010 and the value -37, and its copy is the
  unsigned byte 11011011.
\<close>

theorem copy_of_signed_is_unsigned:
  "copy (byteOf [False, True, False, True, True, False, True, False] True)
     = Inr (byteOf [True, True, False, True, True, False, True, True] False)"
  by code_simp

text \<open>
  C7: every chunk of four bits, the last one included, should be rendered as the digit
  of its number of set bits. The unsigned byte 218 is 1101 1010, with 3 and 2 set
  bits, and is rendered as \<^verbatim>\<open>0x30\<close>: the loop counts a chunk only when its end lies
  strictly below the length of the bit string, which the last chunk never does, so the
  last digit is always 0 (\<open>toHexadecimalString_rendering\<close>).
\<close>

theorem hexadecimal_of_218_ends_in_zero:
  "toHexadecimalString (byteOf [True, True, False, True, True, False, True, False] False) True
     \<noteq> ''0x'' @ popcountDigits [True, True, False, True, True, False, True, False] 2
   \<and> toHexadecimalString (byteOf [True, True, False, True, True, False, True, False] False) True
     = ''0x30''
   \<and> ''0x'' @ popcountDigits [True, True, False, True, True, False, True, False] 2 = ''0x32''"
  by code_simp

text \<open>
  C8, as stated: a vector operand enters the sum with its own effective value, and the
  result is reformed by the receiver's flag. For the signed zero byte as receiver and
  the unsigned byte 218 as operand this would store the reform of \<open>0 + 218\<close>; the
  code stores another vector.
\<close>

theorem mixed_sign_operand_counterexample:
  "fst (add (byteOf [False, False, False, False, False, False, False, False] True)
         (SBinary (byteOf [True, True, False, True, True, False, True, False] False)))
     \<noteq> reform (byteOf [False, False, False, False, False, False, False, False] True)
         (Integer (valueOf (byteOf [False, False, False, False, False, False, False, False] True)
          + valueOf (byteOf [True, True, False, True, True, False, True, False] False)))
   \<and> valueOf (byteOf [True, True, False, True, True, False, True, False] False) = 218
   \<and> add (byteOf [False, False, False, False, False, False, False, False] True)
         (SBinary (byteOf [True, True, False, True, True, False, True, False] False))
     = (byteOf [True, True, False, True, True, False, True, True] True, None)
   \<and> reform (byteOf [False, False, False, False, False, False, False, False] True)
         (Integer (0 + 218))
     = byteOf [False, True, False, True, True, False, True, False] True"
  by code_simp

text \<open>
  C8, amended: a vector operand is decoded by its own flag, and that number is coerced
  again into a temporary of the receiver's width and flag, exactly as a numeric
  operand of that value would be; the temporary's value enters the sum or difference
  and the result is reformed by the receiver's flag. For an unsigned receiver, of any
  width, the stored result is what the operand's own effective value gives: on an
  unsigned byte, adding the signed byte 11011010 stores the receiver's value minus 37.
\<close>

theorem operand_vector_is_recoerced:
  "(\<exists>tmp. new_binary (length_b t) (SNumber (Integer (valueOf v))) (Some (useSigned t)) = Inr tmp \<and>
       add t (SBinary v) = (reform t (Integer (valueOf t + valueOf tmp)), None) \<and>
       subtract t (SBinary v) = (reform t (Integer (valueOf t - valueOf tmp)), None)) \<and>
   (\<not> useSigned t \<and> length (bits t) = length_b t \<longrightarrow>
       add t (SBinary v) = (reform t (Integer (valueOf t + valueOf v)), None) \<and>
       subtract t (SBinary v) = (reform t (Integer (valueOf t - valueOf v)), None)) \<and>
   (\<not> useSigned t \<and> length (bits t) = length_b t \<and> length_b t = 8 \<longrightarrow>
       add t (SBinary (byteOf [True, True, False, True, True, False, True, False] True))
         = (reform t (Integer (unsigned t - 37)), None))"
proof -
  have c: "convert (SBinary v) = Inr (Integer (valueOf v))" for v by simp
  have same: "new_binary w (SBinary v) flag = new_binary w (SNumber (Integer (valueOf v))) flag"
    for w flag
    by (simp add: new_binary_def)
  obtain tmp
    where tmp: "new_binary (length_b t) (SNumber (Integer (valueOf v))) (Some (useSigned t)) = Inr tmp"
    using new_binary_convert [of "SNumber (Integer (valueOf v))" "Integer (valueOf v)"] by simp
  have first: "add t (SBinary v) = (reform t (Integer (valueOf t + valueOf tmp)), None) \<and>
       subtract t (SBinary v) = (reform t (Integer (valueOf t - valueOf tmp)), None)"
    using tmp by (simp add: add_def subtract_def same)
  have second: "add t (SBinary v) = (reform t (Integer (valueOf t + valueOf v)), None) \<and>
       subtract t (SBinary v) = (reform t (Integer (valueOf t - valueOf v)), None)"
    if "\<not> useSigned t" "length (bits t) = length_b t" for v
    using add_unsigned_integer [OF that c] by simp
  have m37: "valueOf (byteOf [True, True, False, True, True, False, True, False] True) = - 37"
    by code_simp
  have third: "add t (SBinary (byteOf [True, True, False, True, True, False, True, False] True))
         = (reform t (Integer (unsigned t - 37)), None)"
    if "\<not> useSigned t" "length (bits t) = length_b t"
  proof -
    from that(1) have "valueOf t = unsigned t"
      by (simp add: valueOf_def)
    then show ?thesis
      using second [OF that, of "byteOf [True, True, False, True, True, False, True, False] True"]
      by (simp add: m37)
  qed
  from tmp first second third show ?thesis by blast
qed

theorem operand_vector_is_recoerced_witness:
  "add (byteOf [True, False, True, False, True, False, False, True] False)
     (SBinary (byteOf [True, True, False, True, True, False, True, False] True))
   = (byteOf [True, False, False, False, False, True, False, False] False, None)
   \<and> unsigned (byteOf [True, False, False, False, False, True, False, False] False) = 169 - 37"
proof -
  let ?t = "byteOf [True, False, True, False, True, False, False, True] False"
  have h: "\<not> useSigned ?t \<and> length (bits ?t) = length_b ?t \<and> length_b ?t = 8"
    by (simp add: byteOf_def)
  have r: "reform ?t (Integer (unsigned ?t - 37))
      = byteOf [True, False, False, False, False, True, False, False] False"
    by code_simp
  have u: "unsigned (byteOf [True, False, False, False, False, True, False, False] False) = 169 - 37"
    by code_simp
  have "\<not> useSigned ?t \<and> length (bits ?t) = length_b ?t \<and> length_b ?t = 8 \<longrightarrow>
       add ?t (SBinary (byteOf [True, True, False, True, True, False, True, False] True))
         = (reform ?t (Integer (unsigned ?t - 37)), None)"
    using operand_vector_is_recoerced [of ?t ?t] by blast
  with h have "add ?t (SBinary (byteOf [True, True, False, True, True, False, True, False] True))
         = (reform ?t (Integer (unsigned ?t - 37)), None)"
    by blast
  with r u show ?thesis
    by (simp only: simp_thms)
qed

text \<open>
  C9: a mutating operation that throws leaves its receiver as it was: the bits, the
  width and the flag. The operand is validated by the constructor of the temporary,
  before the receiver is touched; \<^verbatim>\<open>not\<close> takes no operand and never throws.
\<close>

theorem failed_operation_leaves_receiver:
  "(snd (and_b target arg) = Some e \<longrightarrow> fst (and_b target arg) = target) \<and>
   (snd (or_b target arg) = Some e \<longrightarrow> fst (or_b target arg) = target) \<and>
   (snd (xor_b target arg) = Some e \<longrightarrow> fst (xor_b target arg) = target) \<and>
   (snd (leftShift target arg) = Some e \<longrightarrow> fst (leftShift target arg) = target) \<and>
   (snd (rightShift target arg) = Some e \<longrightarrow> fst (rightShift target arg) = target) \<and>
   (snd (add target arg) = Some e \<longrightarrow> fst (add target arg) = target) \<and>
   (snd (subtract target arg) = Some e \<longrightarrow> fst (subtract target arg) = target) \<and>
   snd (not_b target) = None"
  by (simp add: and_b_def or_b_def xor_b_def leftShift_def rightShift_def add_def
      subtract_def not_b_def split: sum.split)

theorem failed_operation_leaves_receiver_witness:
  "snd (and_b (byteOf [True, False, True, False, True, False, False, True] False)
          (SString ''ten'' NaN))
     = Some NonNumericString
   \<and> fst (and_b (byteOf [True, False, True, False, True, False, False, True] False)
          (SString ''ten'' NaN))
     = byteOf [True, False, True, False, True, False, False, True] False
   \<and> snd (add (byteOf [True, False, True, False, True, False, False, True] False) SNull)
     = Some GivenNull
   \<and> fst (add (byteOf [True, False, True, False, True, False, False, True] False) SNull)
     = byteOf [True, False, True, False, True, False, False, True] False"
proof -
  let ?t = "byteOf [True, False, True, False, True, False, False, True] False"
  have a: "snd (and_b ?t (SString ''ten'' NaN)) = Some NonNumericString"
    by code_simp
  have b: "snd (add ?t SNull) = Some GivenNull"
    by code_simp
  from a failed_operation_leaves_receiver [of ?t "SString ''ten'' NaN" NonNumericString]
  have a': "fst (and_b ?t (SString ''ten'' NaN)) = ?t" by blast
  from b failed_operation_leaves_receiver [of ?t SNull GivenNull]
  have b': "fst (add ?t SNull) = ?t" by blast
  from a a' b b' show ?thesis by blast
qed

text \<open>
  C10, as stated: the constructor called without a seed succeeds and gives the all-zero
  instance. It throws instead: the absent argument is \<^verbatim>\<open>undefined\<close>.
\<close>

theorem absent_seed_counterexample:
  "new_binary 8 SUndefined None = Inl GivenUndefined"
  by (simp add: new_binary_def)

text \<open>
  C10, amended: for every width the constructor called without a seed throws the error
  for an undefined value; the all-zero instance, whose unsigned value is 0, is what
  the seed 0 gives.
\<close>

theorem absent_seed_is_rejected:
  "new_binary w SUndefined flag = Inl GivenUndefined \<and>
   map_sum id bits (new_binary w (SNumber (Integer 0)) flag) = Inr (replicate w False) \<and>
   map_sum id unsigned (new_binary w (SNumber (Integer 0)) flag) = Inr 0"
  by (simp add: new_binary_zero unsigned_def unsigned_loop_clear) (simp add: new_binary_def)

end
